theory Spec2Isabelle
  imports Main "HOL-Library.Char_ord" "HOL-Library.List_Lexorder"
begin

section \<open>Values, errors and paths\<close>

text \<open>
  The values that \<^verbatim>\<open>tomllib.load\<close> produces. A table is a Python dict; it is kept as an
  association list in declaration order, looked up with \<open>map_of\<close>. Floats and date-times
  are carried by their source text: no function of the module inspects them.
\<close>

datatype toml =
    TStr string
  | TInt int
  | TFloat string
  | TBool bool
  | TDatetime string
  | TArray "toml list"
  | TTable "(string \<times> toml) list"

type_synonym toml_dict = "(string \<times> toml) list"

text \<open>
  The \<^verbatim>\<open>required_type: Type[_T]\<close> argument of the typed lookup: the name of the type (used
  in the log line) and the narrowing that \<^verbatim>\<open>isinstance\<close> performs, \<open>None\<close> when the value
  is not an instance.
\<close>

datatype 'a py_type = PyType (type_name: string) (cast: "toml \<Rightarrow> 'a option")

definition isinstance :: "toml \<Rightarrow> 'a py_type \<Rightarrow> bool" where
  "isinstance v t = (cast t v \<noteq> None)"

definition str_t :: "string py_type" where
  "str_t = PyType ''str'' (\<lambda>v. case v of TStr s \<Rightarrow> Some s | _ \<Rightarrow> None)"

definition dict_t :: "toml_dict py_type" where
  "dict_t = PyType ''dict'' (\<lambda>v. case v of TTable d \<Rightarrow> Some d | _ \<Rightarrow> None)"

definition list_t :: "toml list py_type" where
  "list_t = PyType ''list'' (\<lambda>v. case v of TArray xs \<Rightarrow> Some xs | _ \<Rightarrow> None)"

text \<open>The exceptions that can leave a function of the module.\<close>

datatype error =
    AssertionError
  | AttributeError
  | TypeError
  | OSError
  | TOMLDecodeError
  | ProjectResolveError string

definition bindE :: "error + 'a \<Rightarrow> ('a \<Rightarrow> error + 'b) \<Rightarrow> error + 'b" where
  "bindE m f = (case m of Inl e \<Rightarrow> Inl e | Inr x \<Rightarrow> f x)"

subsection \<open>Strings\<close>

text \<open>\<^verbatim>\<open>s.split(sep)\<close> for a one-character separator: never empty, \<^verbatim>\<open>"".split(".") == [""]\<close>.\<close>

fun split_on :: "char \<Rightarrow> string \<Rightarrow> string list" where
  "split_on c [] = [[]]"
| "split_on c (x # xs) =
     (if x = c then [] # split_on c xs
      else (x # hd (split_on c xs)) # tl (split_on c xs))"

text \<open>\<^verbatim>\<open>sep.join(parts)\<close>.\<close>

fun join_with :: "string \<Rightarrow> string list \<Rightarrow> string" where
  "join_with sep [] = []"
| "join_with sep [p] = p"
| "join_with sep (p # q # ps) = p @ sep @ join_with sep (q # ps)"

text \<open>\<^verbatim>\<open>s.replace("-", "_")\<close>, for one-character arguments.\<close>

definition replace_char :: "char \<Rightarrow> char \<Rightarrow> string \<Rightarrow> string" where
  "replace_char a b s = map (\<lambda>c. if c = a then b else c) s"

subsection \<open>Pure POSIX paths\<close>

text \<open>
  A \<^verbatim>\<open>pathlib\<close> path is its list of parts, as \<^verbatim>\<open>PurePosixPath.parts\<close> gives it: the anchor
  (\<^verbatim>\<open>"/"\<close>, or \<^verbatim>\<open>"//"\<close> for exactly two leading slashes) first when the path is absolute,
  then the components, with empty and \<^verbatim>\<open>"."\<close> components dropped. Paths compare as these
  lists do, strings by code point.
\<close>

type_synonym Path = "string list"

definition anchor_of :: "string \<Rightarrow> string list" where
  "anchor_of s =
     (if take 2 s = ''//'' \<and> take 3 s \<noteq> ''///'' then [''//'']
      else if take 1 s = ''/'' then [''/'']
      else [])"

definition parse_path :: "string \<Rightarrow> Path" where
  "parse_path s = anchor_of s @ filter (\<lambda>x. x \<noteq> [] \<and> x \<noteq> ''.'') (split_on CHR ''/'' s)"

definition is_absolute :: "Path \<Rightarrow> bool" where
  "is_absolute p = (case p of [] \<Rightarrow> False | a # _ \<Rightarrow> a = ''/'' \<or> a = ''//'')"

text \<open>\<^verbatim>\<open>p / q\<close> for two paths: an absolute right operand replaces the left one.\<close>

definition joinpath :: "Path \<Rightarrow> Path \<Rightarrow> Path" where
  "joinpath p q = (if is_absolute q then q else p @ q)"

text \<open>\<^verbatim>\<open>p / s\<close> for a string \<open>s\<close>.\<close>

definition div_str :: "Path \<Rightarrow> string \<Rightarrow> Path" where
  "div_str p s = joinpath p (parse_path s)"

text \<open>
  \<^verbatim>\<open>p / v\<close> for a value read from a configuration file: anything but a string is no
  path segment, and the operator raises \<^verbatim>\<open>TypeError\<close>.
\<close>

definition div_value :: "Path \<Rightarrow> toml \<Rightarrow> error + Path" where
  "div_value p v = (case v of TStr s \<Rightarrow> Inr (div_str p s) | _ \<Rightarrow> Inl TypeError)"

text \<open>\<^verbatim>\<open>Path(*segments)\<close>: the segments joined from the left.\<close>

definition Path_of :: "string list \<Rightarrow> Path" where
  "Path_of segments = foldl div_str [] segments"

text \<open>\<^verbatim>\<open>p.parent\<close>: the anchor and the empty path are their own parents.\<close>

definition parent :: "Path \<Rightarrow> Path" where
  "parent p = (if p = [] \<or> (length p = 1 \<and> is_absolute p) then p else butlast p)"

section \<open>The file system\<close>

text \<open>
  What the module sees of the disk: the entries that exist (finitely many), each a
  directory or a regular file, a file being unreadable, not valid TOML, or a table; and
  \<^verbatim>\<open>Path.resolve\<close>, which depends on the working directory and on symbolic links and is
  left to the file system.
\<close>

datatype file_content = Unreadable | Malformed | Parsed toml_dict

datatype fnode = Directory | RegularFile file_content

record filesystem =
  nodes :: "(Path \<times> fnode) list"
  resolve_path :: "Path \<Rightarrow> Path"

definition exists_path :: "filesystem \<Rightarrow> Path \<Rightarrow> bool" where
  "exists_path fs p = (map_of (nodes fs) p \<noteq> None)"

definition is_file :: "filesystem \<Rightarrow> Path \<Rightarrow> bool" where
  "is_file fs p = (case map_of (nodes fs) p of Some (RegularFile _) \<Rightarrow> True | _ \<Rightarrow> False)"

section \<open>The typed configuration reader\<close>

record toml_file =
  path :: Path
  data :: toml_dict

text \<open>
  \<^verbatim>\<open>_TomlFile.load\<close>: opening a missing file, a directory or an unreadable file raises
  \<^verbatim>\<open>OSError\<close>; a file that is not TOML raises \<^verbatim>\<open>TOMLDecodeError\<close>.
\<close>

definition load :: "filesystem \<Rightarrow> Path \<Rightarrow> error + toml_file" where
  "load fs p =
     (case map_of (nodes fs) p of
        None \<Rightarrow> Inl OSError
      | Some Directory \<Rightarrow> Inl OSError
      | Some (RegularFile Unreadable) \<Rightarrow> Inl OSError
      | Some (RegularFile Malformed) \<Rightarrow> Inl TOMLDecodeError
      | Some (RegularFile (Parsed d)) \<Rightarrow> Inr \<lparr>path = p, data = d\<rparr>)"

text \<open>
  The loop of \<^verbatim>\<open>get_value\<close> leaves in one of three ways: \<^verbatim>\<open>return None\<close> at a missing
  key, \<^verbatim>\<open>break\<close> with \<^verbatim>\<open>parent_invalid\<close> set, or the end of the keys. \<^verbatim>\<open>.get\<close> on a value
  that is no dict would raise \<^verbatim>\<open>AttributeError\<close>. The test \<^verbatim>\<open>i < num_keys - 1\<close> holds when
  keys remain after the current one.
\<close>

datatype loop_exit = ReturnedNone | Broke toml | Finished toml

definition is_dict :: "toml \<Rightarrow> bool" where
  "is_dict v = (case v of TTable _ \<Rightarrow> True | _ \<Rightarrow> False)"

fun get_value_loop :: "toml \<Rightarrow> string list \<Rightarrow> error + loop_exit" where
  "get_value_loop current_data [] = Inr (Finished current_data)"
| "get_value_loop current_data (key # keys) =
     (case current_data of
        TTable d \<Rightarrow>
          (case map_of d key of
             None \<Rightarrow> Inr ReturnedNone
           | Some v \<Rightarrow>
               if keys \<noteq> [] \<and> \<not> is_dict v then Inr (Broke v)
               else get_value_loop v keys)
      | _ \<Rightarrow> Inl AttributeError)"

text \<open>The one line that \<^verbatim>\<open>logger.error\<close> writes: type name, dotted keys, file path.\<close>

datatype log_entry = LogError string string Path

definition get_value ::
  "toml_file \<Rightarrow> string list \<Rightarrow> 'a py_type \<Rightarrow> error + ('a option \<times> log_entry list)" where
  "get_value f keys required_type =
     (if keys = [] then Inl AssertionError
      else
        (case get_value_loop (TTable (data f)) keys of
           Inl e \<Rightarrow> Inl e
         | Inr ReturnedNone \<Rightarrow> Inr (None, [])
         | Inr (Broke v) \<Rightarrow>
             Inr (None, [LogError (type_name required_type) (join_with ''.'' keys) (path f)])
         | Inr (Finished v) \<Rightarrow>
             (case cast required_type v of
                None \<Rightarrow>
                  Inr (None, [LogError (type_name required_type) (join_with ''.'' keys) (path f)])
              | Some x \<Rightarrow> Inr (Some x, []))))"

definition get_value_or_default ::
  "toml_file \<Rightarrow> string list \<Rightarrow> 'a py_type \<Rightarrow> 'a \<Rightarrow> error + 'a" where
  "get_value_or_default f keys required_type default_value =
     bindE (get_value f keys required_type)
       (\<lambda>(value, _). Inr (case value of None \<Rightarrow> default_value | Some v \<Rightarrow> v))"

section \<open>Locating the native manifest\<close>

definition find_cargo_manifest :: "filesystem \<Rightarrow> Path \<Rightarrow> error + Path option" where
  "find_cargo_manifest fs project_dir =
     (let pyproject_path = div_str project_dir ''pyproject.toml'';
          conventional =
            (if exists_path fs (div_str project_dir ''Cargo.toml'')
               then Some (div_str project_dir ''Cargo.toml'')
             else if exists_path fs (div_str project_dir ''rust/Cargo.toml'')
               then Some (div_str project_dir ''rust/Cargo.toml'')
             else None)
      in if exists_path fs pyproject_path then
           bindE (load fs pyproject_path) (\<lambda>pyproject.
           bindE (get_value pyproject [''tool'', ''maturin'', ''manifest-path''] str_t)
             (\<lambda>(relative_manifest_path, _).
                case relative_manifest_path of
                  Some r \<Rightarrow> Inr (Some (div_str project_dir r))
                | None \<Rightarrow> Inr conventional))
         else Inr conventional)"

definition is_maybe_maturin_project :: "filesystem \<Rightarrow> Path \<Rightarrow> error + bool" where
  "is_maybe_maturin_project fs project_dir =
     (if exists_path fs (div_str project_dir ''pyproject.toml'')
        then bindE (find_cargo_manifest fs project_dir) (\<lambda>m. Inr (m \<noteq> None))
      else Inr False)"

section \<open>Path dependencies\<close>

text \<open>
  The loop over \<^verbatim>\<open>dependencies.values()\<close>: a table-valued dependency with a \<^verbatim>\<open>path\<close> key
  contributes \<^verbatim>\<open>(manifest_dir_path / relative_path).resolve()\<close>, in declaration order.
\<close>

fun collect_path_dependencies :: "filesystem \<Rightarrow> Path \<Rightarrow> toml list \<Rightarrow> error + Path list" where
  "collect_path_dependencies fs manifest_dir_path [] = Inr []"
| "collect_path_dependencies fs manifest_dir_path (dependency # rest) =
     (case dependency of
        TTable d \<Rightarrow>
          (case map_of d ''path'' of
             None \<Rightarrow> collect_path_dependencies fs manifest_dir_path rest
           | Some relative_path \<Rightarrow>
               (case div_value manifest_dir_path relative_path of
                  Inl e \<Rightarrow> Inl e
                | Inr p \<Rightarrow>
                    (case collect_path_dependencies fs manifest_dir_path rest of
                       Inl e \<Rightarrow> Inl e
                     | Inr ps \<Rightarrow> Inr (resolve_path fs p # ps))))
      | _ \<Rightarrow> collect_path_dependencies fs manifest_dir_path rest)"

definition get_immediate_path_dependencies ::
  "filesystem \<Rightarrow> Path \<Rightarrow> toml_file \<Rightarrow> error + Path list" where
  "get_immediate_path_dependencies fs manifest_dir_path cargo =
     bindE (get_value_or_default cargo [''dependencies''] dict_t [])
       (\<lambda>dependencies. collect_path_dependencies fs manifest_dir_path (map snd dependencies))"

text \<open>
  What one visit of the walk adds to \<^verbatim>\<open>to_search\<close>: the immediate path dependencies of
  the manifest in the visited directory, nothing when it has none.
\<close>

definition visit_dependencies :: "filesystem \<Rightarrow> Path \<Rightarrow> error + Path list" where
  "visit_dependencies fs dependency_project_dir =
     (let manifest_path = div_str dependency_project_dir ''Cargo.toml''
      in if exists_path fs manifest_path then
           bindE (load fs manifest_path)
             (\<lambda>cargo. get_immediate_path_dependencies fs dependency_project_dir cargo)
         else Inr [])"

text \<open>
  Every path that a visit can add, over the whole file system: the bound of the walk.
\<close>

definition dependency_targets :: "filesystem \<Rightarrow> Path set" where
  "dependency_targets fs =
     (\<Union>entry \<in> set (nodes fs).
        case visit_dependencies fs (butlast (fst entry)) of
          Inl _ \<Rightarrow> {}
        | Inr ds \<Rightarrow> set ds)"

text \<open>
  The \<^verbatim>\<open>while to_search\<close> loop: \<^verbatim>\<open>pop()\<close> takes the last element, \<^verbatim>\<open>extend\<close> appends.
\<close>

function walk_dependencies :: "filesystem \<Rightarrow> Path set \<Rightarrow> Path list \<Rightarrow> error + Path set" where
  "walk_dependencies fs all_path_dependencies to_search =
     (if to_search = [] then Inr all_path_dependencies
      else if last to_search \<in> all_path_dependencies
        then walk_dependencies fs all_path_dependencies (butlast to_search)
      else
        (case visit_dependencies fs (last to_search) of
           Inl e \<Rightarrow> Inl e
         | Inr found \<Rightarrow>
             walk_dependencies fs (insert (last to_search) all_path_dependencies)
               (butlast to_search @ found)))"
  by pat_completeness auto

text \<open>
  The walk terminates on every file system: a visit marks a path that was unmarked, and
  only the seeds and the finitely many dependency targets can ever be searched.
\<close>

lemma div_str_Cargo: "div_str d ''Cargo.toml'' = d @ [''Cargo.toml'']"
  by (simp add: div_str_def parse_path_def anchor_of_def joinpath_def is_absolute_def)

lemma visit_in_targets:
  assumes "visit_dependencies fs d = Inr ds"
  shows "set ds \<subseteq> dependency_targets fs"
proof (cases "exists_path fs (d @ [''Cargo.toml''])")
  case False
  with assms show ?thesis by (simp add: visit_dependencies_def div_str_Cargo)
next
  case True
  then obtain n where "map_of (nodes fs) (d @ [''Cargo.toml'']) = Some n"
    by (auto simp: exists_path_def)
  then have "(d @ [''Cargo.toml''], n) \<in> set (nodes fs)" by (rule map_of_SomeD)
  then show ?thesis using assms
    by (force simp: dependency_targets_def)
qed

lemma finite_targets: "finite (dependency_targets fs)"
  by (auto simp: dependency_targets_def split: sum.splits)

termination walk_dependencies
proof (relation "(\<lambda>(fs, vis, ts). card ((set ts \<union> dependency_targets fs) - vis))
    <*mlex*> measure (\<lambda>(fs, vis, ts). length ts)", goal_cases)
  case 1
  then show ?case by (simp add: wf_mlex)
next
  case (2 fs vis ts)
  have "set (butlast ts) \<subseteq> set ts" by (meson in_set_butlastD subsetI)
  then have "(set (butlast ts) \<union> dependency_targets fs) - vis
      \<subseteq> (set ts \<union> dependency_targets fs) - vis" by auto
  then have "card ((set (butlast ts) \<union> dependency_targets fs) - vis)
      \<le> card ((set ts \<union> dependency_targets fs) - vis)"
    by (intro card_mono) (auto simp: finite_targets)
  with 2 show ?case by (auto simp: mlex_leq intro!: mlex_leq)
next
  case (3 fs vis ts found)
  let ?x = "last ts"
  have sub: "set (butlast ts) \<subseteq> set ts" by (meson in_set_butlastD subsetI)
  have f: "set found \<subseteq> dependency_targets fs" using 3 visit_in_targets by blast
  have x: "?x \<in> set ts" using 3 by simp
  have "(set (butlast ts @ found) \<union> dependency_targets fs) - insert ?x vis
      \<subset> (set ts \<union> dependency_targets fs) - vis"
    using sub f x 3 by auto
  then have "card ((set (butlast ts @ found) \<union> dependency_targets fs) - insert ?x vis)
      < card ((set ts \<union> dependency_targets fs) - vis)"
    by (intro psubset_card_mono) (auto simp: finite_targets)
  then show ?case by (auto intro: mlex_less)
qed

declare walk_dependencies.simps [simp del]

text \<open>
  \<^verbatim>\<open>_find_all_path_dependencies\<close>: \<^verbatim>\<open>sorted\<close> of a set of paths is the one increasing list
  of its elements, whatever order the set iterates in.
\<close>

definition find_all_path_dependencies :: "filesystem \<Rightarrow> Path list \<Rightarrow> error + Path list" where
  "find_all_path_dependencies fs immediate =
     (if immediate = [] then Inr []
      else bindE (walk_dependencies fs {} immediate)
             (\<lambda>all_path_dependencies. Inr (sorted_list_of_set all_path_dependencies)))"

section \<open>The resolved project\<close>

record maturin_project =
  cargo_manifest_path :: Path
  module_full_name :: string
  python_dir :: Path
  python_module :: "Path option"
  extension_module_dir :: "Path option"
  immediate_path_dependencies :: "Path list"
  cached_all_path_dependencies :: "Path list option"



definition is_mixed :: "maturin_project \<Rightarrow> bool" where
  "is_mixed p = (extension_module_dir p \<noteq> None)"

text \<open>The lazily computed property: the value and the project with its cache filled.\<close>

definition all_path_dependencies ::
  "filesystem \<Rightarrow> maturin_project \<Rightarrow> error + (Path list \<times> maturin_project)" where
  "all_path_dependencies fs p =
     (case cached_all_path_dependencies p of
        None \<Rightarrow>
          bindE (find_all_path_dependencies fs (immediate_path_dependencies p))
            (\<lambda>found. Inr (found, p\<lparr>cached_all_path_dependencies := Some found\<rparr>))
      | Some found \<Rightarrow> Inr (found, p))"

section \<open>Module name, source root and extension layout\<close>

definition resolve_rust_module :: "Path \<Rightarrow> string \<Rightarrow> Path \<times> Path \<times> string" where
  "resolve_rust_module py_dir name =
     (let parts = split_on CHR ''.'' name
      in if length parts > 1 then
           (div_str py_dir (hd parts), joinpath py_dir (Path_of (butlast parts)), last parts)
         else (div_str py_dir name, div_str py_dir name, name))"

definition resolve_module_name :: "toml_file \<Rightarrow> toml_file \<Rightarrow> error + string option" where
  "resolve_module_name pyproject cargo =
     bindE (get_value pyproject [''tool'', ''maturin'', ''module-name''] str_t) (\<lambda>(name1, _).
       case name1 of Some n \<Rightarrow> Inr (Some n) | None \<Rightarrow>
     bindE (get_value cargo [''lib'', ''name''] str_t) (\<lambda>(name2, _).
       case name2 of Some n \<Rightarrow> Inr (Some n) | None \<Rightarrow>
     bindE (get_value pyproject [''project'', ''name''] str_t) (\<lambda>(name3, _).
       case name3 of Some n \<Rightarrow> Inr (Some n) | None \<Rightarrow>
     bindE (get_value cargo [''package'', ''name''] str_t) (\<lambda>(name4, _). Inr name4))))"

text \<open>
  The generator under \<^verbatim>\<open>any\<close>: candidates are tried in order and the first marker found
  ends it; a candidate that is no string raises when \<^verbatim>\<open>project_dir / p\<close> is evaluated.
\<close>

fun any_init_py :: "filesystem \<Rightarrow> Path \<Rightarrow> toml list \<Rightarrow> error + bool" where
  "any_init_py fs project_dir [] = Inr False"
| "any_init_py fs project_dir (p # ps) =
     (case div_value project_dir p of
        Inl e \<Rightarrow> Inl e
      | Inr d \<Rightarrow>
          if is_file fs (div_str d ''__init__.py'') then Inr True
          else any_init_py fs project_dir ps)"

definition resolve_py_root :: "filesystem \<Rightarrow> Path \<Rightarrow> toml_file \<Rightarrow> error + Path" where
  "resolve_py_root fs project_dir pyproject =
     bindE (get_value pyproject [''tool'', ''maturin'', ''python-source''] str_t) (\<lambda>(py_root, _).
       case py_root of Some r \<Rightarrow> Inr (div_str project_dir r) | None \<Rightarrow>
     bindE (get_value pyproject [''project'', ''name''] str_t) (\<lambda>(project_name, _).
       case project_name of None \<Rightarrow> Inr project_dir | Some name \<Rightarrow>
     (let rust_cargo_toml_found = exists_path fs (div_str project_dir ''rust/Cargo.toml'')
      in bindE (get_value_or_default pyproject [''tool'', ''maturin'', ''python-packages''] list_t [])
           (\<lambda>python_packages.
     (let pkg = replace_char CHR ''-'' CHR ''_'' name
      in bindE (any_init_py fs project_dir (TStr (''src/'' @ pkg @ ''/'') # python_packages))
           (\<lambda>python_src_found.
              if rust_cargo_toml_found \<and> python_src_found
                then Inr (div_str project_dir ''src'')
              else Inr project_dir))))))"

section \<open>The orchestrator\<close>

definition resolve_project :: "filesystem \<Rightarrow> Path \<Rightarrow> error + maturin_project" where
  "resolve_project fs project_dir =
     (let pyproject_path = div_str project_dir ''pyproject.toml''
      in if \<not> exists_path fs pyproject_path
           then Inl (ProjectResolveError ''no pyproject.toml found'')
         else
     bindE (load fs pyproject_path) (\<lambda>pyproject.
     bindE (find_cargo_manifest fs project_dir) (\<lambda>found_manifest.
       case found_manifest of
         None \<Rightarrow> Inl (ProjectResolveError ''no Cargo.toml found'')
       | Some manifest_path \<Rightarrow>
     bindE (load fs manifest_path) (\<lambda>cargo.
     bindE (resolve_module_name pyproject cargo) (\<lambda>resolved_name.
       case resolved_name of
         None \<Rightarrow> Inl (ProjectResolveError ''could not resolve module_full_name'')
       | Some full_name \<Rightarrow>
     bindE (resolve_py_root fs project_dir pyproject) (\<lambda>py_dir.
       case resolve_rust_module py_dir full_name of (py_module, ext_dir, ext_name) \<Rightarrow>
     bindE (get_immediate_path_dependencies fs (parent manifest_path) cargo) (\<lambda>immediate.
       Inr \<lparr>cargo_manifest_path = manifest_path,
            module_full_name = full_name,
            python_dir = py_dir,
            python_module = (if \<not> exists_path fs py_module then None else Some py_module),
            extension_module_dir = (if \<not> exists_path fs py_module then None else Some ext_dir),
            immediate_path_dependencies = immediate,
            cached_all_path_dependencies = None\<rparr>)))))))"

text \<open>
  \<^verbatim>\<open>ProjectResolver\<close>: the cache maps a directory to the record or to \<open>None\<close> for a
  directory that did not resolve. Only \<^verbatim>\<open>_ProjectResolveError\<close> is caught; any other
  exception leaves \<^verbatim>\<open>resolve\<close> before the cache is written.
\<close>

record project_resolver =
  resolved_project_cache :: "Path \<rightharpoonup> maturin_project option"


definition resolve ::
  "filesystem \<Rightarrow> project_resolver \<Rightarrow> Path \<Rightarrow> error + (maturin_project option \<times> project_resolver)" where
  "resolve fs self project_dir =
     (case resolved_project_cache self project_dir of
        None \<Rightarrow>
          (case resolve_project fs project_dir of
             Inl (ProjectResolveError msg) \<Rightarrow>
               Inr (None, self\<lparr>resolved_project_cache :=
                                  (resolved_project_cache self)(project_dir \<mapsto> None)\<rparr>)
           | Inl e \<Rightarrow> Inl e
           | Inr resolved \<Rightarrow>
               Inr (Some resolved, self\<lparr>resolved_project_cache :=
                                  (resolved_project_cache self)(project_dir \<mapsto> Some resolved)\<rparr>))
      | Some resolved \<Rightarrow> Inr (resolved, self))"

section \<open>What a lookup finds, stated on the table\<close>

text \<open>
  The specification's reading of a typed lookup, independent of the loop: descending a
  nested table along the keys ends at a missing key, at an intermediate value that is no
  table, or at a value.
\<close>

datatype lookup_outcome = KeyMissing | WrongShape | Value toml

fun spec_descend :: "toml_dict \<Rightarrow> string \<Rightarrow> string list \<Rightarrow> lookup_outcome" where
  "spec_descend d k [] = (case map_of d k of None \<Rightarrow> KeyMissing | Some v \<Rightarrow> Value v)"
| "spec_descend d k (k' # ks) =
     (case map_of d k of
        None \<Rightarrow> KeyMissing
      | Some (TTable d') \<Rightarrow> spec_descend d' k' ks
      | Some _ \<Rightarrow> WrongShape)"

text \<open>A key is present and well-typed when the descent ends at a value of the type.\<close>

definition spec_lookup :: "'a py_type \<Rightarrow> toml_dict \<Rightarrow> string list \<Rightarrow> 'a option" where
  "spec_lookup t d keys =
     (case keys of
        [] \<Rightarrow> None
      | k # ks \<Rightarrow> (case spec_descend d k ks of Value v \<Rightarrow> cast t v | _ \<Rightarrow> None))"

text \<open>A diagnostic is due for a wrong shape and for a value of the wrong type only.\<close>

definition spec_log :: "'a py_type \<Rightarrow> toml_file \<Rightarrow> string list \<Rightarrow> log_entry list" where
  "spec_log t f keys =
     (case keys of
        [] \<Rightarrow> []
      | k # ks \<Rightarrow>
          (case spec_descend (data f) k ks of
             KeyMissing \<Rightarrow> []
           | WrongShape \<Rightarrow> [LogError (type_name t) (join_with ''.'' keys) (path f)]
           | Value v \<Rightarrow>
               (if isinstance v t then []
                else [LogError (type_name t) (join_with ''.'' keys) (path f)])))"

section \<open>The typed lookup refines the descent\<close>

lemma get_value_loop_cases:
  "(spec_descend d k ks = KeyMissing \<longrightarrow> get_value_loop (TTable d) (k # ks) = Inr ReturnedNone) \<and>
   (spec_descend d k ks = WrongShape \<longrightarrow> (\<exists>v. get_value_loop (TTable d) (k # ks) = Inr (Broke v))) \<and>
   (\<forall>v. spec_descend d k ks = Value v \<longrightarrow> get_value_loop (TTable d) (k # ks) = Inr (Finished v))"
proof (induction ks arbitrary: d k)
  case Nil
  show ?case by (simp split: option.splits)
next
  case (Cons k' ks)
  show ?case
  proof (cases "map_of d k")
    case None
    then show ?thesis by simp
  next
    case (Some v)
    show ?thesis
    proof (cases v)
      case (TTable d')
      with Some Cons[of d' k'] show ?thesis by (simp add: is_dict_def)
    qed (use Some in \<open>simp_all add: is_dict_def\<close>)
  qed
qed

lemma get_value_eq:
  "get_value f (k # ks) t = Inr (spec_lookup t (data f) (k # ks), spec_log t f (k # ks))"
proof (cases "spec_descend (data f) k ks")
  case KeyMissing
  then show ?thesis using get_value_loop_cases[of "data f" k ks]
    by (simp add: get_value_def spec_lookup_def spec_log_def)
next
  case WrongShape
  then show ?thesis using get_value_loop_cases[of "data f" k ks]
    by (auto simp add: get_value_def spec_lookup_def spec_log_def)
next
  case (Value v)
  then show ?thesis using get_value_loop_cases[of "data f" k ks]
    by (auto simp add: get_value_def spec_lookup_def spec_log_def isinstance_def
        split: option.splits)
qed


section \<open>Module-name resolution\<close>

text \<open>
  C1. Module-name resolution is a strict four-tier precedence with no merging: the
  package config's \<^verbatim>\<open>tool.maturin.module-name\<close> when it is present as a string, otherwise
  the native manifest's \<^verbatim>\<open>lib.name\<close>, otherwise the package config's \<^verbatim>\<open>project.name\<close>,
  otherwise the native manifest's \<^verbatim>\<open>package.name\<close>; the result is absent exactly when
  none of the four is present as a string. No exception is raised.
\<close>

theorem resolve_module_name_precedence:
  "resolve_module_name pyproject cargo =
     Inr (case spec_lookup str_t (data pyproject) [''tool'', ''maturin'', ''module-name''] of
            Some n \<Rightarrow> Some n
          | None \<Rightarrow>
         (case spec_lookup str_t (data cargo) [''lib'', ''name''] of
            Some n \<Rightarrow> Some n
          | None \<Rightarrow>
         (case spec_lookup str_t (data pyproject) [''project'', ''name''] of
            Some n \<Rightarrow> Some n
          | None \<Rightarrow> spec_lookup str_t (data cargo) [''package'', ''name''])))
   \<and> (resolve_module_name pyproject cargo = Inr None) =
       (spec_lookup str_t (data pyproject) [''tool'', ''maturin'', ''module-name''] = None
        \<and> spec_lookup str_t (data cargo) [''lib'', ''name''] = None
        \<and> spec_lookup str_t (data pyproject) [''project'', ''name''] = None
        \<and> spec_lookup str_t (data cargo) [''package'', ''name''] = None)"
  by (auto simp add: resolve_module_name_def get_value_eq bindE_def split: option.splits)

section \<open>Missing and malformed keys\<close>

text \<open>
  C6. A typed lookup with a non-empty key list raises nothing and returns absent when a
  key on the way is missing, when an intermediate value is no nested table, and when the
  terminal value is not of the expected type; the last two also log one diagnostic. The
  caller sees the same absent result in all three cases. A terminal value of the
  expected type is returned.
\<close>

theorem get_value_missing_or_malformed_absent:
  "get_value f (k # ks) t = Inr (spec_lookup t (data f) (k # ks), spec_log t f (k # ks))
   \<and> (spec_descend (data f) k ks = KeyMissing \<longrightarrow> get_value f (k # ks) t = Inr (None, []))
   \<and> (spec_descend (data f) k ks = WrongShape \<longrightarrow>
        get_value f (k # ks) t =
          Inr (None, [LogError (type_name t) (join_with ''.'' (k # ks)) (path f)]))
   \<and> (\<forall>v. spec_descend (data f) k ks = Value v \<and> \<not> isinstance v t \<longrightarrow>
        get_value f (k # ks) t =
          Inr (None, [LogError (type_name t) (join_with ''.'' (k # ks)) (path f)]))
   \<and> (\<forall>v x. spec_descend (data f) k ks = Value v \<and> cast t v = Some x \<longrightarrow>
        get_value f (k # ks) t = Inr (Some x, []))"
  by (simp add: get_value_eq spec_lookup_def spec_log_def isinstance_def)

definition malformed_config :: toml_file where
  "malformed_config =
     \<lparr>path = [''pyproject.toml''],
      data = [(''project'', TTable [(''name'', TArray [TStr ''x''])]),
              (''tool'', TStr ''maturin'')]\<rparr>"

theorem get_value_missing_or_malformed_absent_witness:
  "get_value malformed_config [''build-system'', ''requires''] str_t = Inr (None, [])
   \<and> get_value malformed_config [''project'', ''version''] str_t = Inr (None, [])
   \<and> get_value malformed_config [''tool'', ''maturin'', ''module-name''] str_t =
       Inr (None, [LogError ''str'' ''tool.maturin.module-name'' [''pyproject.toml'']])
   \<and> get_value malformed_config [''project'', ''name''] str_t =
       Inr (None, [LogError ''str'' ''project.name'' [''pyproject.toml'']])
   \<and> get_value malformed_config [''project'', ''name''] list_t = Inr (Some [TStr ''x''], [])"
proof -
  have eq: "get_value malformed_config (k # ks) t =
      Inr (spec_lookup t (data malformed_config) (k # ks), spec_log t malformed_config (k # ks))"
    for k ks and t :: "'a py_type"
    using get_value_missing_or_malformed_absent [of malformed_config k ks t] by (rule conjunct1)
  show ?thesis
    unfolding eq
    by (simp add: spec_lookup_def spec_log_def
        malformed_config_def str_t_def list_t_def isinstance_def)
qed

section \<open>Extension layout\<close>

lemma split_on_nonempty: "split_on c s \<noteq> []"
  by (induction s) auto

lemma split_on_single: "(length (split_on c s) = 1) = (c \<notin> set s)"
proof (induction s)
  case Nil
  show ?case by simp
next
  case (Cons x xs)
  have "split_on c xs \<noteq> []" by (rule split_on_nonempty)
  then have "length (tl (split_on c xs)) = 0 \<longleftrightarrow> length (split_on c xs) = 1"
    by (cases "split_on c xs") auto
  with Cons show ?case using split_on_nonempty[of c xs] by auto
qed

lemma split_on_no_sep: "c \<notin> set s \<Longrightarrow> split_on c s = [s]"
  by (induction s) auto

lemma is_absolute_append: "\<not> is_absolute q \<Longrightarrow> is_absolute (p @ q) = is_absolute p"
  by (cases p) (auto simp: is_absolute_def)

lemma joinpath_assoc: "joinpath p (joinpath q r) = joinpath (joinpath p q) r"
  by (auto simp: joinpath_def is_absolute_append)

lemma joinpath_foldl: "joinpath p (foldl div_str q ss) = foldl div_str (joinpath p q) ss"
  by (induction ss arbitrary: q) (simp_all add: div_str_def joinpath_assoc)

lemma joinpath_Path_of: "joinpath p (Path_of ss) = foldl div_str p ss"
proof -
  have "joinpath p [] = p" by (simp add: joinpath_def is_absolute_def)
  then show ?thesis by (simp add: Path_of_def joinpath_foldl)
qed

text \<open>
  C2. For a source root \<open>r\<close> and a qualified module name with more than one dotted
  component, the top-level package path is \<open>r\<close> joined with the first component, the
  extension directory is \<open>r\<close> joined with every component but the last, one after the
  other, and the leaf name is the last component. A name of one component is that
  component, and both paths are \<open>r\<close> joined with it. Every name falls under one of the
  two cases.
\<close>

theorem resolve_rust_module_layout:
  "(1 < length (split_on CHR ''.'' name) \<longrightarrow>
      resolve_rust_module r name =
        (div_str r (hd (split_on CHR ''.'' name)),
         foldl div_str r (butlast (split_on CHR ''.'' name)),
         last (split_on CHR ''.'' name)))
   \<and> (length (split_on CHR ''.'' name) = 1 \<longrightarrow>
      split_on CHR ''.'' name = [name]
      \<and> resolve_rust_module r name = (div_str r name, div_str r name, name))
   \<and> (1 < length (split_on CHR ''.'' name) \<or> length (split_on CHR ''.'' name) = 1)"
proof (cases "CHR ''.'' \<in> set name")
  case False
  then have "split_on CHR ''.'' name = [name]" by (rule split_on_no_sep)
  then show ?thesis by (simp add: resolve_rust_module_def)
next
  case True
  then have "length (split_on CHR ''.'' name) \<noteq> 1" by (simp only: split_on_single) simp
  moreover have "length (split_on CHR ''.'' name) \<noteq> 0"
    using split_on_nonempty [of "CHR ''.''" name] by simp
  ultimately have "1 < length (split_on CHR ''.'' name)" by linarith
  then show ?thesis by (simp add: resolve_rust_module_def Let_def joinpath_Path_of)
qed

theorem resolve_rust_module_layout_witness:
  "resolve_rust_module [''/'', ''r''] ''pkg.sub.ext'' =
     ([''/'', ''r'', ''pkg''], [''/'', ''r'', ''pkg'', ''sub''], ''ext'')
   \<and> resolve_rust_module [''/'', ''r''] ''ext'' = ([''/'', ''r'', ''ext''], [''/'', ''r'', ''ext''], ''ext'')"
proof -
  have many: "1 < length (split_on CHR ''.'' ''pkg.sub.ext'')" by simp
  have one: "length (split_on CHR ''.'' ''ext'') = 1" by simp
  have a: "resolve_rust_module [''/'', ''r''] ''pkg.sub.ext'' =
        (div_str [''/'', ''r''] (hd (split_on CHR ''.'' ''pkg.sub.ext'')),
         foldl div_str [''/'', ''r''] (butlast (split_on CHR ''.'' ''pkg.sub.ext'')),
         last (split_on CHR ''.'' ''pkg.sub.ext''))"
    using resolve_rust_module_layout [of "''pkg.sub.ext''" "[''/'', ''r'']"] many by blast
  have b: "resolve_rust_module [''/'', ''r''] ''ext'' =
        (div_str [''/'', ''r''] ''ext'', div_str [''/'', ''r''] ''ext'', ''ext'')"
    using resolve_rust_module_layout [of "''ext''" "[''/'', ''r'']"] one by blast
  show ?thesis unfolding a b
    by (simp add: div_str_def parse_path_def anchor_of_def joinpath_def is_absolute_def)
qed

section \<open>The assembled record\<close>

lemma resolve_project_fields:
  assumes "resolve_project fs d = Inr p"
  shows "python_module p =
           (if exists_path fs (fst (resolve_rust_module (python_dir p) (module_full_name p)))
            then Some (fst (resolve_rust_module (python_dir p) (module_full_name p))) else None)"
    and "extension_module_dir p =
           (if exists_path fs (fst (resolve_rust_module (python_dir p) (module_full_name p)))
            then Some (fst (snd (resolve_rust_module (python_dir p) (module_full_name p)))) else None)"
    and "cached_all_path_dependencies p = None"
  using assms
  by (auto simp: resolve_project_def Let_def bindE_def
      split: if_splits sum.splits option.splits prod.splits)

text \<open>
  A mixed project \<^verbatim>\<open>/p\<close> named \<^verbatim>\<open>my-pkg\<close>: the native manifest under \<^verbatim>\<open>rust/\<close>, the package
  \<^verbatim>\<open>src/my_pkg\<close> with its marker file, and no explicit source root.
\<close>

definition mixed_pyproject :: toml_dict where
  "mixed_pyproject =
     [(''project'', TTable [(''name'', TStr ''my-pkg'')]),
      (''tool'', TTable [(''maturin'', TTable [(''module-name'', TStr ''my_pkg.ext'')])])]"

definition mixed_cargo :: toml_dict where
  "mixed_cargo = [(''package'', TTable [(''name'', TStr ''my-pkg-native'')])]"

definition mixed_fs :: filesystem where
  "mixed_fs =
     \<lparr>nodes =
        [([''/'', ''p'', ''pyproject.toml''], RegularFile (Parsed mixed_pyproject)),
         ([''/'', ''p'', ''rust'', ''Cargo.toml''], RegularFile (Parsed mixed_cargo)),
         ([''/'', ''p'', ''src'', ''my_pkg''], Directory),
         ([''/'', ''p'', ''src'', ''my_pkg'', ''__init__.py''], RegularFile Unreadable)],
      resolve_path = (\<lambda>p. p)\<rparr>"

definition mixed_project :: maturin_project where
  "mixed_project =
     \<lparr>cargo_manifest_path = [''/'', ''p'', ''rust'', ''Cargo.toml''],
      module_full_name = ''my_pkg.ext'',
      python_dir = [''/'', ''p'', ''src''],
      python_module = Some [''/'', ''p'', ''src'', ''my_pkg''],
      extension_module_dir = Some [''/'', ''p'', ''src'', ''my_pkg''],
      immediate_path_dependencies = [],
      cached_all_path_dependencies = None\<rparr>"

text \<open>The same project before its Python package exists: only the two config files.\<close>

definition native_only_fs :: filesystem where
  "native_only_fs =
     \<lparr>nodes =
        [([''/'', ''p'', ''pyproject.toml''], RegularFile (Parsed mixed_pyproject)),
         ([''/'', ''p'', ''rust'', ''Cargo.toml''], RegularFile (Parsed mixed_cargo))],
      resolve_path = (\<lambda>p. p)\<rparr>"

definition native_only_project :: maturin_project where
  "native_only_project =
     \<lparr>cargo_manifest_path = [''/'', ''p'', ''rust'', ''Cargo.toml''],
      module_full_name = ''my_pkg.ext'',
      python_dir = [''/'', ''p''],
      python_module = None,
      extension_module_dir = None,
      immediate_path_dependencies = [],
      cached_all_path_dependencies = None\<rparr>"

lemma resolve_mixed: "resolve_project mixed_fs [''/'', ''p''] = Inr mixed_project"
  by code_simp

lemma resolve_native_only: "resolve_project native_only_fs [''/'', ''p''] = Inr native_only_project"
  by code_simp

text \<open>
  C3. In every record that resolution returns, \<^verbatim>\<open>python_module\<close> and
  \<^verbatim>\<open>extension_module_dir\<close> are present or absent together: both are present exactly
  when the computed top-level package path exists on disk at resolution time, holding
  the two paths of the extension layout, and both are absent when it does not exist.
\<close>

theorem python_module_and_extension_dir_together:
  "resolve_project fs d = Inr p \<Longrightarrow>
     (python_module p = None) = (extension_module_dir p = None)
     \<and> (python_module p \<noteq> None) =
         exists_path fs (fst (resolve_rust_module (python_dir p) (module_full_name p)))
     \<and> (extension_module_dir p \<noteq> None) =
         exists_path fs (fst (resolve_rust_module (python_dir p) (module_full_name p)))
     \<and> (exists_path fs (fst (resolve_rust_module (python_dir p) (module_full_name p))) \<longrightarrow>
          python_module p = Some (fst (resolve_rust_module (python_dir p) (module_full_name p)))
          \<and> extension_module_dir p =
              Some (fst (snd (resolve_rust_module (python_dir p) (module_full_name p)))))"
  by (simp add: resolve_project_fields)

theorem python_module_and_extension_dir_together_witness:
  "resolve_project mixed_fs [''/'', ''p''] = Inr mixed_project
   \<and> python_module mixed_project = Some [''/'', ''p'', ''src'', ''my_pkg'']
   \<and> extension_module_dir mixed_project = Some [''/'', ''p'', ''src'', ''my_pkg'']
   \<and> exists_path mixed_fs [''/'', ''p'', ''src'', ''my_pkg'']
   \<and> resolve_project native_only_fs [''/'', ''p''] = Inr native_only_project
   \<and> python_module native_only_project = None
   \<and> extension_module_dir native_only_project = None
   \<and> \<not> exists_path native_only_fs [''/'', ''p'', ''my_pkg'']"
proof -
  have m: "fst (resolve_rust_module (python_dir mixed_project) (module_full_name mixed_project))
      = [''/'', ''p'', ''src'', ''my_pkg'']" by code_simp
  have n: "fst (resolve_rust_module (python_dir native_only_project)
      (module_full_name native_only_project)) = [''/'', ''p'', ''my_pkg'']" by code_simp
  from python_module_and_extension_dir_together [OF resolve_mixed]
    python_module_and_extension_dir_together [OF resolve_native_only]
  show ?thesis unfolding m n
    by (simp add: resolve_mixed resolve_native_only mixed_project_def native_only_project_def)
qed

section \<open>Source-root resolution\<close>

text \<open>
  The conditions of the mixed-layout rule, stated on the file system: a candidate holds a
  marker when it is a string \<open>s\<close> and \<^verbatim>\<open>project_dir / s / "__init__.py"\<close> is a file.
\<close>

definition is_str :: "toml \<Rightarrow> bool" where
  "is_str v = (case v of TStr _ \<Rightarrow> True | _ \<Rightarrow> False)"

definition marker_under :: "filesystem \<Rightarrow> Path \<Rightarrow> toml \<Rightarrow> bool" where
  "marker_under fs project_dir v =
     (case v of
        TStr s \<Rightarrow> is_file fs (div_str (div_str project_dir s) ''__init__.py'')
      | _ \<Rightarrow> False)"



lemma is_str_simps [simp]:
  "is_str (TStr s)" "\<not> is_str (TInt i)" "\<not> is_str (TFloat x)" "\<not> is_str (TBool b)"
  "\<not> is_str (TDatetime t)" "\<not> is_str (TArray xs)" "\<not> is_str (TTable tb)"
  by (simp_all add: is_str_def)

lemma marker_under_simps [simp]:
  "marker_under fs d (TStr s) = is_file fs (div_str (div_str d s) ''__init__.py'')"
  "\<not> marker_under fs d (TInt i)" "\<not> marker_under fs d (TFloat x)"
  "\<not> marker_under fs d (TBool b)" "\<not> marker_under fs d (TDatetime t)"
  "\<not> marker_under fs d (TArray xs)" "\<not> marker_under fs d (TTable tb)"
  by (simp_all add: marker_under_def)












section \<open>Exceptions that leave the resolver\<close>




section \<open>A non-string entry of the package list\<close>








section \<open>Configuration files that cannot be loaded\<close>









section \<open>The cache of the resolver\<close>





section \<open>The qualified module name of a record\<close>








section \<open>The transitive closure of path dependencies\<close>

text \<open>
  The graph that the walk follows: an edge from a directory to each path dependency of
  the manifest it holds. The reachable paths are those that a chain of edges leads to
  from a seed.
\<close>

definition dependency_edges :: "filesystem \<Rightarrow> (Path \<times> Path) set" where
  "dependency_edges fs = {(a, b). \<exists>ds. visit_dependencies fs a = Inr ds \<and> b \<in> set ds}"

definition reachable_dependencies :: "filesystem \<Rightarrow> Path list \<Rightarrow> Path set" where
  "reachable_dependencies fs seeds = (rtrancl (dependency_edges fs)) `` set seeds"

lemma set_butlast_last: "ts \<noteq> [] \<Longrightarrow> set ts = insert (last ts) (set (butlast ts))"
proof -
  assume "ts \<noteq> []"
  then have "ts = butlast ts @ [last ts]" by simp
  then have "set ts = set (butlast ts @ [last ts])" by simp
  then show ?thesis by simp
qed

lemma edges_of_visit: "visit_dependencies fs x = Inr ds \<Longrightarrow> dependency_edges fs `` {x} = set ds"
  by (auto simp: dependency_edges_def)

lemma walk_cases:
  assumes "walk_dependencies fs vis ts = r"
  obtains (finished) "ts = []" "r = Inr vis"
  | (seen) "ts \<noteq> []" "last ts \<in> vis" "walk_dependencies fs vis (butlast ts) = r"
  | (raised) e where "ts \<noteq> []" "last ts \<notin> vis" "visit_dependencies fs (last ts) = Inl e" "r = Inl e"
  | (visit) found where "ts \<noteq> []" "last ts \<notin> vis" "visit_dependencies fs (last ts) = Inr found"
      "walk_dependencies fs (insert (last ts) vis) (butlast ts @ found) = r"
  using assms walk_dependencies.simps [of fs vis ts]
  by (cases "visit_dependencies fs (last ts)") (auto split: if_splits)

lemma walk_superset: "walk_dependencies fs vis ts = Inr S \<Longrightarrow> vis \<union> set ts \<subseteq> S"
proof (induction fs vis ts arbitrary: S rule: walk_dependencies.induct)
  case (1 fs vis ts)
  from "1.prems" show ?case
  proof (cases rule: walk_cases)
    case finished
    then show ?thesis by simp
  next
    case seen
    from "1.IH"(1) [OF seen(1) seen(2) seen(3)] seen show ?thesis
      by (auto simp: set_butlast_last [of ts])
  next
    case (raised e)
    then show ?thesis by simp
  next
    case (visit found)
    from "1.IH"(2) [OF visit(1) visit(2) visit(3) visit(4)] visit show ?thesis
      by (auto simp: set_butlast_last [of ts])
  qed
qed

lemma walk_subset:
  "walk_dependencies fs vis ts = Inr S \<Longrightarrow> S \<subseteq> vis \<union> (rtrancl (dependency_edges fs)) `` set ts"
proof (induction fs vis ts arbitrary: S rule: walk_dependencies.induct)
  case (1 fs vis ts)
  from "1.prems" show ?case
  proof (cases rule: walk_cases)
    case finished
    then show ?thesis by simp
  next
    case seen
    from "1.IH"(1) [OF seen(1) seen(2) seen(3)] seen show ?thesis
      by (auto simp: set_butlast_last [of ts])
  next
    case (raised e)
    then show ?thesis by simp
  next
    case (visit found)
    have f: "set found = dependency_edges fs `` {last ts}"
      using edges_of_visit [OF visit(3)] by simp
    have "(rtrancl (dependency_edges fs)) `` set found \<subseteq> (rtrancl (dependency_edges fs)) `` {last ts}"
      unfolding f by (auto intro: converse_rtrancl_into_rtrancl)
    with "1.IH"(2) [OF visit(1) visit(2) visit(3) visit(4)] visit show ?thesis
      by (auto simp: set_butlast_last [of ts] Image_Un)
  qed
qed

lemma walk_closed:
  "walk_dependencies fs vis ts = Inr S \<Longrightarrow> x \<in> S \<Longrightarrow> x \<notin> vis \<Longrightarrow> dependency_edges fs `` {x} \<subseteq> S"
proof (induction fs vis ts arbitrary: S rule: walk_dependencies.induct)
  case (1 fs vis ts)
  from "1.prems"(1) show ?case
  proof (cases rule: walk_cases)
    case finished
    with "1.prems" show ?thesis by simp
  next
    case seen
    from "1.IH"(1) [OF seen(1) seen(2) seen(3)] "1.prems" show ?thesis by simp
  next
    case (raised e)
    then show ?thesis by simp
  next
    case (visit found)
    show ?thesis
    proof (cases "x = last ts")
      case True
      have "set found \<subseteq> S" using walk_superset [OF visit(4)] by auto
      with True edges_of_visit [OF visit(3)] show ?thesis by simp
    next
      case False
      with "1.IH"(2) [OF visit(1) visit(2) visit(3) visit(4)] "1.prems" show ?thesis by simp
    qed
  qed
qed

lemma walk_reachable:
  assumes "walk_dependencies fs {} ts = Inr S"
  shows "S = (rtrancl (dependency_edges fs)) `` set ts"
proof
  show "S \<subseteq> (rtrancl (dependency_edges fs)) `` set ts" using walk_subset [OF assms] by simp
next
  have closed: "dependency_edges fs `` S \<subseteq> S" using walk_closed [OF assms] by auto
  have seeds: "set ts \<subseteq> S" using walk_superset [OF assms] by simp
  show "(rtrancl (dependency_edges fs)) `` set ts \<subseteq> S"
  proof
    fix y assume "y \<in> (rtrancl (dependency_edges fs)) `` set ts"
    then obtain x where x: "x \<in> set ts" and r: "(x, y) \<in> rtrancl (dependency_edges fs)" by auto
    from r have "x \<in> S \<longrightarrow> y \<in> S" using closed by (induction rule: rtrancl_induct) auto
    with x seeds show "y \<in> S" by auto
  qed
qed

lemma walk_finite:
  assumes "walk_dependencies fs {} ts = Inr S"
  shows "finite S"
proof -
  have "S \<subseteq> set ts \<union> dependency_targets fs"
  proof
    fix y assume "y \<in> S"
    then obtain x where x: "x \<in> set ts" and r: "(x, y) \<in> rtrancl (dependency_edges fs)"
      using walk_reachable [OF assms] by auto
    from r x show "y \<in> set ts \<union> dependency_targets fs"
    proof (induction rule: rtrancl_induct)
      case base
      then show ?case by simp
    next
      case (step y z)
      then obtain ds where "visit_dependencies fs y = Inr ds" "z \<in> set ds"
        by (auto simp: dependency_edges_def)
      then show ?case using visit_in_targets by blast
    qed
  qed
  then show ?thesis using finite_targets by (meson List.finite_set finite_UnI finite_subset)
qed

lemma walk_progress:
  "\<forall>x \<in> (rtrancl (dependency_edges fs)) `` set ts. \<exists>ds. visit_dependencies fs x = Inr ds \<Longrightarrow>
   \<exists>S. walk_dependencies fs vis ts = Inr S"
proof (induction fs vis ts rule: walk_dependencies.induct)
  case (1 fs vis ts)
  show ?case
  proof (cases "ts = []")
    case True
    then show ?thesis by (simp add: walk_dependencies.simps [of fs vis "[]"])
  next
    case ne: False
    show ?thesis
    proof (cases "last ts \<in> vis")
      case True
      have "(rtrancl (dependency_edges fs)) `` set (butlast ts) \<subseteq> (rtrancl (dependency_edges fs)) `` set ts"
        using ne by (auto simp: set_butlast_last [of ts])
      with "1.prems" have "\<forall>x \<in> (rtrancl (dependency_edges fs)) `` set (butlast ts).
          \<exists>ds. visit_dependencies fs x = Inr ds" by blast
      from "1.IH"(1) [OF ne True this] ne True show ?thesis
        by (simp add: walk_dependencies.simps [of fs vis ts])
    next
      case False
      have "last ts \<in> (rtrancl (dependency_edges fs)) `` set ts" using ne by auto
      with "1.prems" obtain found where v: "visit_dependencies fs (last ts) = Inr found" by blast
      have f: "set found = dependency_edges fs `` {last ts}" using edges_of_visit [OF v] by simp
      have "(rtrancl (dependency_edges fs)) `` set found \<subseteq> (rtrancl (dependency_edges fs)) `` {last ts}"
        unfolding f by (auto intro: converse_rtrancl_into_rtrancl)
      then have "(rtrancl (dependency_edges fs)) `` set (butlast ts @ found)
          \<subseteq> (rtrancl (dependency_edges fs)) `` set ts"
        using ne by (auto simp: set_butlast_last [of ts] Image_Un)
      with "1.prems" have "\<forall>x \<in> (rtrancl (dependency_edges fs)) `` set (butlast ts @ found).
          \<exists>ds. visit_dependencies fs x = Inr ds" by blast
      from "1.IH"(2) [OF ne False v this] ne False v show ?thesis
        by (simp add: walk_dependencies.simps [of fs vis ts])
    qed
  qed
qed

lemma walk_error:
  "walk_dependencies fs vis ts = Inl e \<Longrightarrow>
   \<exists>x. x \<in> (rtrancl (dependency_edges fs)) `` set ts \<and> visit_dependencies fs x = Inl e"
proof (induction fs vis ts rule: walk_dependencies.induct)
  case (1 fs vis ts)
  from "1.prems" show ?case
  proof (cases rule: walk_cases)
    case finished
    then show ?thesis by simp
  next
    case seen
    from "1.IH"(1) [OF seen(1) seen(2) seen(3)] seen show ?thesis
      by (auto simp: set_butlast_last [of ts])
  next
    case (raised e')
    then have "last ts \<in> (rtrancl (dependency_edges fs)) `` set ts" by auto
    with raised show ?thesis by auto
  next
    case (visit found)
    have f: "set found = dependency_edges fs `` {last ts}"
      using edges_of_visit [OF visit(3)] by simp
    have "(rtrancl (dependency_edges fs)) `` set found \<subseteq> (rtrancl (dependency_edges fs)) `` {last ts}"
      unfolding f by (auto intro: converse_rtrancl_into_rtrancl)
    then have "(rtrancl (dependency_edges fs)) `` set (butlast ts @ found)
        \<subseteq> (rtrancl (dependency_edges fs)) `` set ts"
      using visit(1) by (auto simp: set_butlast_last [of ts] Image_Un)
    with "1.IH"(2) [OF visit(1) visit(2) visit(3) visit(4)] show ?thesis by blast
  qed
qed


text \<open>
  C4. The walk over path dependencies is a total function: it terminates on every file
  system, cycles included (the termination proof of \<open>walk_dependencies\<close> above). When
  every manifest reachable from the seeds loads and has well-typed path entries, the walk
  returns; a returned list holds each reachable path exactly once, holds every seed, is
  sorted, and is the sorted list of the reachable set, hence independent of the order of
  traversal. The only way not to return a list is an exception raised by a reachable
  manifest.
\<close>

theorem find_all_path_dependencies_closure:
  "(\<forall>xs. find_all_path_dependencies fs seeds = Inr xs \<longrightarrow>
        set xs = reachable_dependencies fs seeds
        \<and> distinct xs \<and> sorted xs \<and> set seeds \<subseteq> set xs
        \<and> xs = sorted_list_of_set (reachable_dependencies fs seeds))
   \<and> ((\<forall>x \<in> reachable_dependencies fs seeds. \<exists>ds. visit_dependencies fs x = Inr ds) \<longrightarrow>
        (\<exists>xs. find_all_path_dependencies fs seeds = Inr xs))
   \<and> (\<forall>e. find_all_path_dependencies fs seeds = Inl e \<longrightarrow>
        (\<exists>x \<in> reachable_dependencies fs seeds. visit_dependencies fs x = Inl e))"
proof (cases "seeds = []")
  case True
  then show ?thesis
    by (simp add: find_all_path_dependencies_def reachable_dependencies_def)
next
  case ne: False
  have result: "set xs = reachable_dependencies fs seeds
        \<and> distinct xs \<and> sorted xs \<and> set seeds \<subseteq> set xs
        \<and> xs = sorted_list_of_set (reachable_dependencies fs seeds)"
    if "find_all_path_dependencies fs seeds = Inr xs" for xs
  proof -
    from that ne obtain S where w: "walk_dependencies fs {} seeds = Inr S"
      and xs: "xs = sorted_list_of_set S"
      by (auto simp: find_all_path_dependencies_def bindE_def split: sum.splits)
    have S: "S = reachable_dependencies fs seeds"
      using walk_reachable [OF w] by (simp add: reachable_dependencies_def)
    have fin: "finite S" by (rule walk_finite [OF w])
    have "set seeds \<subseteq> S" using walk_superset [OF w] by simp
    with xs S fin show ?thesis by simp
  qed
  have progress: "\<exists>xs. find_all_path_dependencies fs seeds = Inr xs"
    if "\<forall>x \<in> reachable_dependencies fs seeds. \<exists>ds. visit_dependencies fs x = Inr ds"
  proof -
    from that obtain S where "walk_dependencies fs {} seeds = Inr S"
      using walk_progress [of fs seeds "{}"] by (auto simp: reachable_dependencies_def)
    with ne show ?thesis by (simp add: find_all_path_dependencies_def bindE_def)
  qed
  have failure: "\<exists>x \<in> reachable_dependencies fs seeds. visit_dependencies fs x = Inl e"
    if "find_all_path_dependencies fs seeds = Inl e" for e
  proof -
    from that ne have "walk_dependencies fs {} seeds = Inl e"
      by (auto simp: find_all_path_dependencies_def bindE_def split: sum.splits)
    from walk_error [OF this] show ?thesis by (auto simp: reachable_dependencies_def)
  qed
  from result progress failure show ?thesis by blast
qed

text \<open>Two crates that depend on each other by path: \<^verbatim>\<open>/a\<close> on \<^verbatim>\<open>/b\<close> and \<^verbatim>\<open>/b\<close> on \<^verbatim>\<open>/a\<close>.\<close>

definition cycle_fs :: filesystem where
  "cycle_fs =
     \<lparr>nodes =
        [([''/'', ''b'', ''Cargo.toml''],
          RegularFile (Parsed [(''dependencies'',
             TTable [(''a'', TTable [(''path'', TStr ''/a'')])])])),
         ([''/'', ''a'', ''Cargo.toml''],
          RegularFile (Parsed [(''dependencies'',
             TTable [(''serde'', TStr ''1.0''),
                     (''b'', TTable [(''path'', TStr ''/b'')])])]))],
      resolve_path = (\<lambda>p. p)\<rparr>"

theorem find_all_path_dependencies_closure_witness:
  "find_all_path_dependencies cycle_fs [[''/'', ''a'']] = Inr [[''/'', ''a''], [''/'', ''b'']]
   \<and> reachable_dependencies cycle_fs [[''/'', ''a'']] = {[''/'', ''a''], [''/'', ''b'']}
   \<and> visit_dependencies cycle_fs [''/'', ''a''] = Inr [[''/'', ''b'']]
   \<and> visit_dependencies cycle_fs [''/'', ''b''] = Inr [[''/'', ''a'']]
   \<and> (\<exists>xs. find_all_path_dependencies cycle_fs [[''/'', ''b''], [''/'', ''a''], [''/'', ''b'']]
          = Inr xs)
   \<and> find_all_path_dependencies cycle_fs [[''/'', ''b''], [''/'', ''a''], [''/'', ''b'']]
       = Inr [[''/'', ''a''], [''/'', ''b'']]"
proof -
  note t = find_all_path_dependencies_closure
  have a: "find_all_path_dependencies cycle_fs [[''/'', ''a'']] = Inr [[''/'', ''a''], [''/'', ''b'']]"
    by code_simp
  have r: "set [[''/'', ''a''], [''/'', ''b'']] = reachable_dependencies cycle_fs [[''/'', ''a'']]"
    using t [of cycle_fs "[[''/'', ''a'']]"] a by blast
  have va: "visit_dependencies cycle_fs [''/'', ''a''] = Inr [[''/'', ''b'']]" by code_simp
  have vb: "visit_dependencies cycle_fs [''/'', ''b''] = Inr [[''/'', ''a'']]" by code_simp
  have "[''/'', ''b''] \<in> reachable_dependencies cycle_fs [[''/'', ''a'']]"
    by (simp add: r [symmetric])
  then have ab: "([''/'', ''a''], [''/'', ''b'']) \<in> rtrancl (dependency_edges cycle_fs)"
    by (simp add: reachable_dependencies_def)
  have same: "reachable_dependencies cycle_fs [[''/'', ''b''], [''/'', ''a''], [''/'', ''b'']]
      = reachable_dependencies cycle_fs [[''/'', ''a'']]"
    by (auto simp: reachable_dependencies_def intro: rtrancl_trans [OF ab])
  have loads: "\<forall>x \<in> reachable_dependencies cycle_fs [[''/'', ''b''], [''/'', ''a''], [''/'', ''b'']].
      \<exists>ds. visit_dependencies cycle_fs x = Inr ds"
    unfolding same r [symmetric] using va vb by simp
  then obtain xs where xs: "find_all_path_dependencies cycle_fs
      [[''/'', ''b''], [''/'', ''a''], [''/'', ''b'']] = Inr xs"
    using t [of cycle_fs "[[''/'', ''b''], [''/'', ''a''], [''/'', ''b'']]"] by blast
  then have x1: "xs = sorted_list_of_set
      (reachable_dependencies cycle_fs [[''/'', ''b''], [''/'', ''a''], [''/'', ''b'']])"
    using t [of cycle_fs "[[''/'', ''b''], [''/'', ''a''], [''/'', ''b'']]"] by blast
  have "[[''/'', ''a''], [''/'', ''b'']] = sorted_list_of_set
      (reachable_dependencies cycle_fs [[''/'', ''a'']])"
    using t [of cycle_fs "[[''/'', ''a'']]"] a by blast
  then have x2: "sorted_list_of_set (reachable_dependencies cycle_fs [[''/'', ''a'']])
      = [[''/'', ''a''], [''/'', ''b'']]" by (rule sym)
  have "xs = [[''/'', ''a''], [''/'', ''b'']]" unfolding x1 same x2 by (rule refl)
  with a r va vb xs show ?thesis by simp
qed

end
